theory Spec2Isabelle
  imports Main "HOL-Library.Word" "HOL-Library.Signed_Division" "HOL-Library.Sublist"
begin

section \<open>The websocket client of client.go\<close>

text \<open>
  client.go holds one type (Client), two goroutine bodies (readMessages, writeMessages),
  the pong handler and the two heartbeat variables. Both pumps only talk to things that
  live outside the file: the gorilla connection, the Manager, encoding/json, the log
  package, a ticker and the egress channel. The embedding therefore runs a pump against
  a script of what the outside returns at each call, and produces the list of calls the
  pump makes, in order, together with where the pump stands when the script is used up:
  returned, or blocked in its next read or select.
\<close>

subsection \<open>Durations and the heartbeat variables\<close>

text \<open>
  time.Duration is an int64 count of nanoseconds. Go multiplies with wrap-around, as
  \<open>*\<close> on a 64-bit word does, and divides the signed values towards zero, wrapping the
  quotient back into 64 bits (the divisor in this file is the constant 10, never zero).
\<close>

type_synonym Duration = "64 word"

definition quo :: "Duration \<Rightarrow> Duration \<Rightarrow> Duration" where
  "quo a b = word_of_int (sint a sdiv sint b)"

definition Second :: Duration where
  "Second = 1000000000"

definition pongWait :: Duration where
  "pongWait = 10 * Second"

definition pingInterval :: Duration where
  "pingInterval = quo (pongWait * 9) 10"

text \<open>A point in time, in nanoseconds; Time.Add moves it by a signed duration.\<close>

type_synonym Time = int

definition Add :: "Time \<Rightarrow> Duration \<Rightarrow> Time" where
  "Add t d = t + sint d"

subsection \<open>Data\<close>

type_synonym bytes = "8 word list"

text \<open>
  Modelled from the spec: the Event struct is declared in another file of the repository.
  The spec gives the wire envelope as a kind and an opaque payload.
\<close>

record Event =
  kind :: string
  payload :: bytes

text \<open>
  A Go error value. Only the read pump looks inside one, to tell a websocket close error
  (with its close code) from anything else.
\<close>

datatype error = CloseError int string | OtherError string

definition CloseGoingAway :: int where
  "CloseGoingAway = 1001"

definition CloseAbnormalClosure :: int where
  "CloseAbnormalClosure = 1006"

text \<open>
  websocket.IsUnexpectedCloseError: true for a close error whose code is not among the
  expected ones, false for every other error.
\<close>

fun IsUnexpectedCloseError :: "error \<Rightarrow> int list \<Rightarrow> bool" where
  "IsUnexpectedCloseError (CloseError code txt) expectedCodes = (code \<notin> set expectedCodes)"
| "IsUnexpectedCloseError (OtherError txt) expectedCodes = False"

datatype MessageType = TextMessage | BinaryMessage | CloseMessage | PingMessage | PongMessage

text \<open>
  The calls a pump makes, with their arguments. Log carries the fixed text of the log
  statement and the error printed with it, if any.
\<close>

datatype action =
    SetReadLimit int
  | SetReadDeadline Time
  | SetPongHandler
  | ReadMessage
  | PongHandler string
  | Unmarshal bytes
  | RouteEvent Event
  | RemoveClient
  | NewTicker Duration
  | TickerStop
  | Marshal Event
  | WriteMessage MessageType bytes
  | Log string "error option"

text \<open>
  Where a pump stands at the end of the script: it has returned (its deferred function
  has run), or it is blocked waiting for the next frame or the next select case.
\<close>

datatype status = Returned | Blocked

type_synonym run = "action list \<times> status"

text \<open>The calls made so far, followed by the rest of the run.\<close>

definition emit :: "action list \<Rightarrow> run \<Rightarrow> run" where
  "emit as r = (as @ fst r, snd r)"

text \<open>A deferred function runs when the body returns, and only then.\<close>

definition deferred :: "action list \<Rightarrow> run \<Rightarrow> run" where
  "deferred ds r = (if snd r = Returned then (fst r @ ds, Returned) else r)"

text \<open>The shape \<open>if err != nil { log... }\<close>.\<close>

fun logIfErr :: "string \<Rightarrow> error option \<Rightarrow> action list" where
  "logIfErr msg None = []"
| "logIfErr msg (Some err) = [Log msg (Some err)]"

subsection \<open>The pong handler\<close>

text \<open>
  pongHandler logs and returns what SetReadDeadline returns. Its arguments are the pong
  text, the value of time.Now() and the result of the SetReadDeadline call.
\<close>

definition pongHandler :: "string \<Rightarrow> Time \<Rightarrow> error option \<Rightarrow> action list \<times> error option" where
  "pongHandler pongMsg now res =
     ([Log ''pong'' None, SetReadDeadline (Add now pongWait)], res)"

subsection \<open>The read pump\<close>

text \<open>
  One call of ReadMessage, as the outside answers it. While the call is in progress the
  connection may invoke the installed pong handler, once for each pong that arrives:
  each Pong carries the handler's argument, the time and the result of its deadline
  call. The call then returns an error or a frame. With a frame comes what routeEvent
  returns for the event decoded from it, should the pump get that far. json.Unmarshal
  is a function of the payload and is passed to the pump. A script is free in what it
  answers: nothing ties the result of a read to what the handler returned during it, so
  a property proved for all scripts holds for whatever the connection does.
\<close>

datatype pong = Pong string Time "error option"

datatype read_result = ReadErr error | ReadOk MessageType bytes "error option"

datatype read_step = ReadStep (pongs: "pong list") (result: read_result)

fun invoke :: "pong \<Rightarrow> action list" where
  "invoke (Pong pongMsg now res) = PongHandler pongMsg # fst (pongHandler pongMsg now res)"

fun readLoop :: "(bytes \<Rightarrow> error + Event) \<Rightarrow> read_step list \<Rightarrow> run" where
  "readLoop unmarshal [] = ([ReadMessage], Blocked)"
| "readLoop unmarshal (ReadStep ps (ReadErr err) # rest) =
     (ReadMessage # concat (map invoke ps) @
        (if IsUnexpectedCloseError err [CloseGoingAway, CloseAbnormalClosure]
         then [Log ''error reading message: '' (Some err)] else []),
      Returned)"
| "readLoop unmarshal (ReadStep ps (ReadOk mt p routed) # rest) =
     (case unmarshal p of
        Inl err \<Rightarrow>
          (ReadMessage # concat (map invoke ps) @
             [Unmarshal p, Log ''error marshalling message: '' (Some err)],
           Returned)
      | Inr request \<Rightarrow>
          emit (ReadMessage # concat (map invoke ps) @
                  [Unmarshal p, RouteEvent request] @
                  logIfErr ''Error handeling Message: '' routed)
               (readLoop unmarshal rest))"

text \<open>
  readMessages: \<open>now\<close> is time.Now() at startup and \<open>dl\<close> the result of the first
  SetReadDeadline.
\<close>

definition readMessages ::
  "(bytes \<Rightarrow> error + Event) \<Rightarrow> Time \<Rightarrow> error option \<Rightarrow> read_step list \<Rightarrow> run" where
  "readMessages unmarshal now dl script =
     deferred [RemoveClient]
       (emit [SetReadLimit 512, SetReadDeadline (Add now pongWait)]
          (case dl of
             Some err \<Rightarrow> ([Log [] (Some err)], Returned)
           | None \<Rightarrow> emit [SetPongHandler] (readLoop unmarshal script)))"

subsection \<open>The write pump\<close>

text \<open>
  One round of the select, as the outside decides it: the egress channel yields a
  message, the egress channel is found closed, or the ticker fires. Each comes with the
  result of the WriteMessage call of that branch, should the pump reach it. The order of
  the Message cases is the order in which the sends on the channel completed.
  json.Marshal is a function of the event and is passed to the pump.
\<close>

datatype selected =
    Message Event "error option"
  | ChannelClosed "error option"
  | Tick "error option"

fun writeLoop :: "(Event \<Rightarrow> error + bytes) \<Rightarrow> selected list \<Rightarrow> run" where
  "writeLoop marshal [] = ([], Blocked)"
| "writeLoop marshal (ChannelClosed res # rest) =
     (WriteMessage CloseMessage [] # logIfErr ''connection closed: '' res, Returned)"
| "writeLoop marshal (Message message res # rest) =
     (case marshal message of
        Inl err \<Rightarrow> ([Marshal message, Log [] (Some err)], Returned)
      | Inr data \<Rightarrow>
          emit ([Marshal message, WriteMessage TextMessage data] @ logIfErr [] res @
                  [Log ''sent message'' None])
               (writeLoop marshal rest))"
| "writeLoop marshal (Tick res # rest) =
     (case res of
        Some err \<Rightarrow>
          ([Log ''ping'' None, WriteMessage PingMessage [], Log ''writemsg: '' (Some err)],
           Returned)
      | None \<Rightarrow>
          emit [Log ''ping'' None, WriteMessage PingMessage []] (writeLoop marshal rest))"

definition writeMessages :: "(Event \<Rightarrow> error + bytes) \<Rightarrow> selected list \<Rightarrow> run" where
  "writeMessages marshal script =
     deferred [TickerStop, RemoveClient]
       (emit [NewTicker pingInterval] (writeLoop marshal script))"

subsection \<open>Reading a run\<close>

primrec dispatched :: "action list \<Rightarrow> Event list" where
  "dispatched [] = []"
| "dispatched (a # as) = (case a of RouteEvent e \<Rightarrow> e # dispatched as | _ \<Rightarrow> dispatched as)"

primrec written :: "action list \<Rightarrow> (MessageType \<times> bytes) list" where
  "written [] = []"
| "written (a # as) = (case a of WriteMessage mt d \<Rightarrow> (mt, d) # written as | _ \<Rightarrow> written as)"

primrec deadlines :: "action list \<Rightarrow> Time list" where
  "deadlines [] = []"
| "deadlines (a # as) = (case a of SetReadDeadline t \<Rightarrow> t # deadlines as | _ \<Rightarrow> deadlines as)"

primrec handled :: "action list \<Rightarrow> string list" where
  "handled [] = []"
| "handled (a # as) = (case a of PongHandler m \<Rightarrow> m # handled as | _ \<Rightarrow> handled as)"

text \<open>The reads and the dispatches of a run, in the order they were made.\<close>

primrec reads_and_routes :: "action list \<Rightarrow> action list" where
  "reads_and_routes [] = []"
| "reads_and_routes (a # as) =
     (case a of ReadMessage \<Rightarrow> a # reads_and_routes as
              | RouteEvent e \<Rightarrow> a # reads_and_routes as
              | _ \<Rightarrow> reads_and_routes as)"

text \<open>The payloads of the text frames written, in order.\<close>

definition texts :: "action list \<Rightarrow> bytes list" where
  "texts tr = map snd (filter (\<lambda>w. fst w = TextMessage) (written tr))"

subsection \<open>Scripts that keep a pump running\<close>

text \<open>
  The event a read step hands to the router: the frame was read without error and its
  payload decodes. Such a step does not end the read loop.
\<close>

fun frame_event :: "(bytes \<Rightarrow> error + Event) \<Rightarrow> read_step \<Rightarrow> Event option" where
  "frame_event unmarshal (ReadStep ps (ReadErr err)) = None"
| "frame_event unmarshal (ReadStep ps (ReadOk mt p routed)) =
     (case unmarshal p of Inl err \<Rightarrow> None | Inr request \<Rightarrow> Some request)"

text \<open>
  The select rounds after which the write loop selects again: a message that encodes
  (whatever its write returns) and a tick whose ping is written.
\<close>

fun continues :: "(Event \<Rightarrow> error + bytes) \<Rightarrow> selected \<Rightarrow> bool" where
  "continues marshal (Message message res) =
     (case marshal message of Inl err \<Rightarrow> False | Inr data \<Rightarrow> True)"
| "continues marshal (ChannelClosed res) = False"
| "continues marshal (Tick res) = (res = None)"

text \<open>The events received from the egress channel, in the order received.\<close>

fun enqueued :: "selected list \<Rightarrow> Event list" where
  "enqueued [] = []"
| "enqueued (Message message res # rest) = message # enqueued rest"
| "enqueued (ChannelClosed res # rest) = enqueued rest"
| "enqueued (Tick res # rest) = enqueued rest"

text \<open>The kind of frame each branch of the select writes.\<close>

fun frame_kind :: "selected \<Rightarrow> MessageType" where
  "frame_kind (Message message res) = TextMessage"
| "frame_kind (ChannelClosed res) = CloseMessage"
| "frame_kind (Tick res) = PingMessage"

subsection \<open>Sample inputs\<close>

text \<open>
  Two small stand-ins for the JSON functions, used to run the pumps on concrete scripts:
  the decoder rejects the empty payload, the encoder rejects an event without a kind.
\<close>

definition sample_unmarshal :: "bytes \<Rightarrow> error + Event" where
  "sample_unmarshal p =
     (if p = [] then Inl (OtherError ''unexpected end of JSON input'')
      else Inr \<lparr>kind = ''chat'', payload = p\<rparr>)"

definition sample_marshal :: "Event \<Rightarrow> error + bytes" where
  "sample_marshal e =
     (if kind e = [] then Inl (OtherError ''json: error calling MarshalJSON'')
      else Inr (payload e))"

definition hello :: Event where
  "hello = \<lparr>kind = ''chat'', payload = [104, 105]\<rparr>"

definition bye :: Event where
  "bye = \<lparr>kind = ''chat'', payload = [98, 121, 101]\<rparr>"

definition nameless :: Event where
  "nameless = \<lparr>kind = [], payload = [63]\<rparr>"

section \<open>The heartbeat variables\<close>

lemma sint_pongWait: "sint pongWait = 10000000000"
  by (simp add: pongWait_def Second_def)

lemma sint_pingInterval: "sint pingInterval = 9000000000"
  by (simp add: pingInterval_def quo_def pongWait_def Second_def signed_divide_int_def)

text \<open>
  C9. pongWait is 10 seconds and pingInterval is 9 seconds, read as signed 64-bit
  nanosecond counts. The product pongWait * 9 stays below 2^63, so the multiplication
  does not wrap, and it is a multiple of 10, so the division loses nothing: the value
  is the exact integer (pongWait * 9) / 10. pingInterval is strictly less than pongWait.
\<close>

theorem heartbeat_constants:
  "sint pongWait = 10 * 1000000000
   \<and> sint pingInterval = 9 * 1000000000
   \<and> sint pongWait * 9 < 2 ^ 63
   \<and> (sint pongWait * 9) mod 10 = 0
   \<and> sint pingInterval = (sint pongWait * 9) div 10
   \<and> sint pingInterval < sint pongWait"
  by (simp add: pingInterval_def quo_def pongWait_def Second_def signed_divide_int_def)


section \<open>Runs and their projections\<close>

lemma fst_emit [simp]: "fst (emit as r) = as @ fst r"
  by (simp add: emit_def)

lemma snd_emit [simp]: "snd (emit as r) = snd r"
  by (simp add: emit_def)

lemma fst_deferred: "fst (deferred ds r) = fst r @ (if snd r = Returned then ds else [])"
  by (simp add: deferred_def)

lemma snd_deferred [simp]: "snd (deferred ds r) = snd r"
  by (simp add: deferred_def)

lemma dispatched_append [simp]: "dispatched (xs @ ys) = dispatched xs @ dispatched ys"
  by (induction xs) (auto split: action.splits)

lemma written_append [simp]: "written (xs @ ys) = written xs @ written ys"
  by (induction xs) (auto split: action.splits)

lemma deadlines_append [simp]: "deadlines (xs @ ys) = deadlines xs @ deadlines ys"
  by (induction xs) (auto split: action.splits)

lemma handled_append [simp]: "handled (xs @ ys) = handled xs @ handled ys"
  by (induction xs) (auto split: action.splits)

lemma reads_and_routes_append [simp]:
  "reads_and_routes (xs @ ys) = reads_and_routes xs @ reads_and_routes ys"
  by (induction xs) (auto split: action.splits)

lemma logIfErr_quiet [simp]:
  "dispatched (logIfErr msg res) = []" "written (logIfErr msg res) = []"
  "deadlines (logIfErr msg res) = []" "handled (logIfErr msg res) = []"
  "reads_and_routes (logIfErr msg res) = []"
  "RemoveClient \<notin> set (logIfErr msg res)" "TickerStop \<notin> set (logIfErr msg res)"
  by (cases res; simp)+

lemma texts_append [simp]: "texts (xs @ ys) = texts xs @ texts ys"
  by (simp add: texts_def)

lemma texts_simps [simp]:
  "texts [] = []"
  "texts (WriteMessage TextMessage d # tr) = d # texts tr"
  "texts (WriteMessage PingMessage d # tr) = texts tr"
  "texts (WriteMessage CloseMessage d # tr) = texts tr"
  "texts (Marshal e # tr) = texts tr"
  "texts (NewTicker iv # tr) = texts tr"
  "texts (Log msg res # tr) = texts tr"
  "texts (logIfErr msg res) = []"
  by (simp_all add: texts_def)

text \<open>An invocation of the pong handler reads nothing, routes nothing, writes nothing.\<close>

lemma invoke_one [simp]:
  "dispatched (invoke a) = []" "written (invoke a) = []"
  "reads_and_routes (invoke a) = []"
  "RemoveClient \<notin> set (invoke a)"
  "length (deadlines (invoke a)) = length (handled (invoke a))"
  by (cases a; simp add: pongHandler_def)+

lemma invoke_quiet [simp]:
  "dispatched (concat (map invoke ps)) = []" "written (concat (map invoke ps)) = []"
  "reads_and_routes (concat (map invoke ps)) = []"
  by (induction ps; simp)+

lemma invoke_no_remove [simp]: "RemoveClient \<notin> set (concat (map invoke ps))"
  by (induction ps) auto

lemma invoke_deadlines:
  "length (deadlines (concat (map invoke ps))) = length (handled (concat (map invoke ps)))"
  by (induction ps) auto

section \<open>The read loop\<close>

lemma readLoop_starts: "\<exists>tr. fst (readLoop unmarshal script) = ReadMessage # tr"
  by (cases "(unmarshal, script)" rule: readLoop.cases) (auto split: sum.splits)

lemma readLoop_blocked:
  "\<forall>s\<in>set pre. frame_event unmarshal s \<noteq> None \<Longrightarrow> snd (readLoop unmarshal pre) = Blocked"
  by (induction unmarshal pre rule: readLoop.induct) (auto split: sum.splits)

lemma readLoop_append:
  "\<forall>s\<in>set pre. frame_event unmarshal s \<noteq> None \<Longrightarrow>
   readLoop unmarshal (pre @ rest) =
     emit (butlast (fst (readLoop unmarshal pre))) (readLoop unmarshal rest)"
proof (induction unmarshal pre rule: readLoop.induct)
  case (1 unmarshal)
  then show ?case by (simp add: emit_def)
next
  case (2 unmarshal ps err rest)
  then show ?case by simp
next
  case (3 unmarshal ps mt p routed rest')
  obtain tr where tr: "fst (readLoop unmarshal rest') = ReadMessage # tr"
    using readLoop_starts by blast
  from 3 show ?case
    by (auto split: sum.splits simp: emit_def tr butlast_append)
qed

lemma readLoop_dispatched:
  "\<forall>s\<in>set script. frame_event unmarshal s \<noteq> None \<Longrightarrow>
   map Some (dispatched (fst (readLoop unmarshal script))) = map (frame_event unmarshal) script"
  by (induction unmarshal script rule: readLoop.induct) (auto split: sum.splits)

lemma readLoop_alternates:
  "\<forall>s\<in>set script. frame_event unmarshal s \<noteq> None \<Longrightarrow>
   reads_and_routes (fst (readLoop unmarshal script)) =
     concat (map (\<lambda>s. [ReadMessage, RouteEvent (the (frame_event unmarshal s))]) script)
       @ [ReadMessage]"
  by (induction unmarshal script rule: readLoop.induct) (auto split: sum.splits)

lemma readLoop_no_remove: "RemoveClient \<notin> set (fst (readLoop unmarshal script))"
  by (induction unmarshal script rule: readLoop.induct) (auto split: sum.splits)

lemma readLoop_last_blocked:
  "snd (readLoop unmarshal script) = Blocked \<Longrightarrow>
   fst (readLoop unmarshal script) = butlast (fst (readLoop unmarshal script)) @ [ReadMessage]"
proof (induction unmarshal script rule: readLoop.induct)
  case (3 unmarshal ps mt p routed rest')
  obtain tr where tr: "fst (readLoop unmarshal rest') = ReadMessage # tr"
    using readLoop_starts by blast
  from 3 show ?case
    by (auto split: sum.splits simp: tr butlast_append)
qed auto

lemma readLoop_deadlines:
  "length (deadlines (fst (readLoop unmarshal script))) =
   length (handled (fst (readLoop unmarshal script)))"
  by (induction unmarshal script rule: readLoop.induct)
     (auto split: sum.splits simp: invoke_deadlines)

lemma readLoop_no_pong:
  "\<forall>s\<in>set script. pongs s = [] \<Longrightarrow> deadlines (fst (readLoop unmarshal script)) = []"
  by (induction unmarshal script rule: readLoop.induct) (auto split: sum.splits)

text \<open>
  After steps that keep the loop running the pump is blocked in ReadMessage; the next
  step answers that call, so its calls follow the ones already made.
\<close>

lemma readLoop_step:
  assumes "\<forall>s\<in>set pre. frame_event unmarshal s \<noteq> None"
  shows "fst (readLoop unmarshal (pre @ s # rest)) =
           fst (readLoop unmarshal pre) @ tl (fst (readLoop unmarshal (s # rest)))"
    and "snd (readLoop unmarshal (pre @ s # rest)) = snd (readLoop unmarshal (s # rest))"
proof -
  obtain tr where tr: "fst (readLoop unmarshal (s # rest)) = ReadMessage # tr"
    using readLoop_starts by blast
  have b: "fst (readLoop unmarshal pre) = butlast (fst (readLoop unmarshal pre)) @ [ReadMessage]"
    using assms by (intro readLoop_last_blocked readLoop_blocked)
  have "fst (readLoop unmarshal (pre @ s # rest)) =
          butlast (fst (readLoop unmarshal pre)) @ ReadMessage # tr"
    using assms by (simp add: readLoop_append tr)
  also have "\<dots> = (butlast (fst (readLoop unmarshal pre)) @ [ReadMessage]) @ tr"
    by simp
  also have "\<dots> = fst (readLoop unmarshal pre) @ tr"
    using b by simp
  finally show "fst (readLoop unmarshal (pre @ s # rest)) =
           fst (readLoop unmarshal pre) @ tl (fst (readLoop unmarshal (s # rest)))"
    by (simp add: tr)
  show "snd (readLoop unmarshal (pre @ s # rest)) = snd (readLoop unmarshal (s # rest))"
    using assms by (simp add: readLoop_append)
qed

lemma readMessages_running:
  "\<forall>s\<in>set pre. frame_event unmarshal s \<noteq> None \<Longrightarrow>
   readMessages unmarshal now None pre =
     ([SetReadLimit 512, SetReadDeadline (Add now pongWait), SetPongHandler]
        @ fst (readLoop unmarshal pre), Blocked)"
  by (simp add: readMessages_def deferred_def emit_def readLoop_blocked)

lemma readMessages_step:
  assumes "\<forall>s\<in>set pre. frame_event unmarshal s \<noteq> None"
  shows "readMessages unmarshal now None (pre @ s # rest) =
           deferred [RemoveClient]
             (emit (fst (readMessages unmarshal now None pre)
                      @ tl (fst (readLoop unmarshal (s # rest))))
                   ([], snd (readLoop unmarshal (s # rest))))"
  using assms
  by (simp add: readMessages_running readLoop_step)
     (simp add: readMessages_def deferred_def emit_def readLoop_step)

section \<open>The write loop\<close>

lemma writeLoop_blocked:
  "\<forall>s\<in>set pre. continues marshal s \<Longrightarrow> snd (writeLoop marshal pre) = Blocked"
  by (induction marshal pre rule: writeLoop.induct) (auto split: sum.splits)

lemma writeLoop_append:
  "\<forall>s\<in>set pre. continues marshal s \<Longrightarrow>
   writeLoop marshal (pre @ rest) = emit (fst (writeLoop marshal pre)) (writeLoop marshal rest)"
  by (induction marshal pre rule: writeLoop.induct) (auto split: sum.splits simp: emit_def)

lemma writeLoop_texts:
  "\<forall>s\<in>set script. continues marshal s \<Longrightarrow>
   map Inr (texts (fst (writeLoop marshal script))) = map marshal (enqueued script)"
  by (induction marshal script rule: writeLoop.induct) (auto split: sum.splits)

lemma writeLoop_texts_prefix:
  "prefix (map Inr (texts (fst (writeLoop marshal script)))) (map marshal (enqueued script))"
  by (induction marshal script rule: writeLoop.induct) (auto split: sum.splits option.splits)

lemma writeLoop_kinds:
  "\<forall>s\<in>set script. continues marshal s \<Longrightarrow>
   map fst (written (fst (writeLoop marshal script))) = map frame_kind script"
  by (induction marshal script rule: writeLoop.induct) (auto split: sum.splits)

lemma writeLoop_no_cleanup:
  "TickerStop \<notin> set (fst (writeLoop marshal script))"
  "RemoveClient \<notin> set (fst (writeLoop marshal script))"
  by (induction marshal script rule: writeLoop.induct; auto split: sum.splits option.splits)+

lemma writeLoop_no_deadline: "deadlines (fst (writeLoop marshal script)) = []"
  by (induction marshal script rule: writeLoop.induct) (auto split: sum.splits option.splits)

lemma writeMessages_running:
  "\<forall>s\<in>set pre. continues marshal s \<Longrightarrow>
   writeMessages marshal pre = (NewTicker pingInterval # fst (writeLoop marshal pre), Blocked)"
  by (simp add: writeMessages_def deferred_def emit_def writeLoop_blocked)

lemma writeMessages_step:
  "\<forall>s\<in>set pre. continues marshal s \<Longrightarrow>
   writeMessages marshal (pre @ rest) =
     deferred [TickerStop, RemoveClient]
       (emit (fst (writeMessages marshal pre)) (writeLoop marshal rest))"
  by (simp add: writeMessages_running)
     (simp add: writeMessages_def writeLoop_append deferred_def emit_def)

section \<open>Properties of the read pump\<close>

text \<open>
  C1. When the first deadline is set and every one of the N frames of the script is read
  without error and decodes, readMessages calls routeEvent exactly N times: the i-th
  call carries the event decoded from the i-th frame, each call falls between the read
  of its frame and the next read, and after the N frames the pump is blocked in the
  next ReadMessage.
\<close>

theorem dispatch_once_per_frame:
  assumes "\<forall>s\<in>set script. frame_event unmarshal s \<noteq> None"
  shows "map Some (dispatched (fst (readMessages unmarshal now None script)))
           = map (frame_event unmarshal) script
         \<and> length (dispatched (fst (readMessages unmarshal now None script))) = length script
         \<and> reads_and_routes (fst (readMessages unmarshal now None script)) =
             concat (map (\<lambda>s. [ReadMessage, RouteEvent (the (frame_event unmarshal s))]) script)
               @ [ReadMessage]
         \<and> snd (readMessages unmarshal now None script) = Blocked"
proof -
  let ?tr = "fst (readMessages unmarshal now None script)"
  have d: "map Some (dispatched ?tr) = map (frame_event unmarshal) script"
    using assms by (simp add: readMessages_running readLoop_dispatched)
  have "length (map Some (dispatched ?tr)) = length (map (frame_event unmarshal) script)"
    by (simp only: d)
  then have l: "length (dispatched ?tr) = length script"
    by simp
  have a: "reads_and_routes ?tr =
      concat (map (\<lambda>s. [ReadMessage, RouteEvent (the (frame_event unmarshal s))]) script)
        @ [ReadMessage]"
    using assms by (simp add: readMessages_running readLoop_alternates)
  have b: "snd (readMessages unmarshal now None script) = Blocked"
    using assms by (simp add: readMessages_running)
  from d l a b show ?thesis by simp
qed

theorem dispatch_once_per_frame_witness:
  "frame_event sample_unmarshal (ReadStep [] (ReadOk TextMessage [104, 105] None)) = Some hello
   \<and> frame_event sample_unmarshal
       (ReadStep [Pong [] 7 None] (ReadOk TextMessage [98, 121, 101] None)) = Some bye
   \<and> dispatched (fst (readMessages sample_unmarshal 0 None
        [ReadStep [] (ReadOk TextMessage [104, 105] None),
         ReadStep [Pong [] 7 None] (ReadOk TextMessage [98, 121, 101] None)])) = [hello, bye]"
proof -
  have h: "\<forall>s\<in>set [ReadStep [] (ReadOk TextMessage [104, 105] None),
                   ReadStep [Pong [] 7 None] (ReadOk TextMessage [98, 121, 101] None)].
             frame_event sample_unmarshal s \<noteq> None"
    by (simp add: sample_unmarshal_def)
  show ?thesis
    using dispatch_once_per_frame [OF h, of 0]
    by (simp add: sample_unmarshal_def hello_def bye_def readMessages_def deferred_def
          pongHandler_def)
qed

text \<open>
  C2. After any number of well-formed frames, a frame whose payload does not decode ends
  the read loop: the run is the calls made so far, the decode attempt, its log line and
  one removeClient, and the pump has returned, whatever frames would have followed. The
  dispatches of the whole run are those of the earlier frames only, and removeClient is
  called exactly once. The write pump is no argument of readMessages, so its state
  cannot change this.
\<close>

theorem malformed_frame_ends_read_pump:
  assumes "\<forall>s\<in>set pre. frame_event unmarshal s \<noteq> None"
    and "unmarshal p = Inl err"
  shows "readMessages unmarshal now None (pre @ ReadStep ps (ReadOk mt p routed) # rest) =
           (fst (readMessages unmarshal now None pre) @ concat (map invoke ps) @
              [Unmarshal p, Log ''error marshalling message: '' (Some err), RemoveClient],
            Returned)
         \<and> map Some (dispatched (fst (readMessages unmarshal now None
                 (pre @ ReadStep ps (ReadOk mt p routed) # rest))))
             = map (frame_event unmarshal) pre
         \<and> count_list (fst (readMessages unmarshal now None
                 (pre @ ReadStep ps (ReadOk mt p routed) # rest))) RemoveClient = 1"
proof -
  let ?r = "readMessages unmarshal now None (pre @ ReadStep ps (ReadOk mt p routed) # rest)"
  have run: "?r = (fst (readMessages unmarshal now None pre) @ concat (map invoke ps) @
              [Unmarshal p, Log ''error marshalling message: '' (Some err), RemoveClient],
            Returned)"
    using assms by (simp add: readMessages_step deferred_def emit_def)
  have pre: "fst (readMessages unmarshal now None pre) =
      [SetReadLimit 512, SetReadDeadline (Add now pongWait), SetPongHandler]
        @ fst (readLoop unmarshal pre)"
    using assms(1) by (simp add: readMessages_running)
  have d: "map Some (dispatched (fst ?r)) = map (frame_event unmarshal) pre"
    using assms(1) by (simp add: run pre readLoop_dispatched)
  have "count_list (fst (readLoop unmarshal pre)) RemoveClient = 0"
    by (simp add: readLoop_no_remove)
  then have c: "count_list (fst ?r) RemoveClient = 1"
    by (simp add: run pre)
  from run d c show ?thesis by simp
qed

theorem malformed_frame_ends_read_pump_witness:
  "frame_event sample_unmarshal (ReadStep [] (ReadOk TextMessage [104, 105] None)) = Some hello
   \<and> sample_unmarshal [] = Inl (OtherError ''unexpected end of JSON input'')
   \<and> readMessages sample_unmarshal 0 None
        [ReadStep [] (ReadOk TextMessage [104, 105] None),
         ReadStep [] (ReadOk TextMessage [] None),
         ReadStep [] (ReadOk TextMessage [98, 121, 101] None)] =
       ([SetReadLimit 512, SetReadDeadline 10000000000, SetPongHandler,
         ReadMessage, Unmarshal [104, 105], RouteEvent hello,
         ReadMessage, Unmarshal [],
         Log ''error marshalling message: '' (Some (OtherError ''unexpected end of JSON input'')),
         RemoveClient],
        Returned)"
proof -
  have h1: "\<forall>s\<in>set [ReadStep [] (ReadOk TextMessage [104, 105] None)].
              frame_event sample_unmarshal s \<noteq> None"
    by (simp add: sample_unmarshal_def)
  have h2: "sample_unmarshal [] = Inl (OtherError ''unexpected end of JSON input'')"
    by (simp add: sample_unmarshal_def)
  show ?thesis
    using malformed_frame_ends_read_pump [OF h1 h2, of 0 "[]" TextMessage None
        "[ReadStep [] (ReadOk TextMessage [98, 121, 101] None)]"]
    by (simp add: sample_unmarshal_def hello_def readMessages_def deferred_def
          Add_def sint_pongWait)
qed

text \<open>
  C8. After any number of well-formed frames, when routeEvent returns an error for a
  decoded event, the pump logs it and goes on: the calls that follow are those of the
  loop on the remaining frames, and the pump stands where that loop stands. With no
  frame left it is blocked in the next ReadMessage and has not called removeClient.
\<close>

theorem dispatch_error_keeps_read_pump:
  assumes "\<forall>s\<in>set pre. frame_event unmarshal s \<noteq> None"
    and "unmarshal p = Inr request"
  shows "fst (readMessages unmarshal now None
                (pre @ ReadStep ps (ReadOk mt p (Some err)) # rest)) =
           fst (readMessages unmarshal now None pre) @ concat (map invoke ps) @
             [Unmarshal p, RouteEvent request, Log ''Error handeling Message: '' (Some err)] @
             fst (deferred [RemoveClient] (readLoop unmarshal rest))
         \<and> snd (readMessages unmarshal now None
                (pre @ ReadStep ps (ReadOk mt p (Some err)) # rest)) =
             snd (readLoop unmarshal rest)
         \<and> readMessages unmarshal now None (pre @ [ReadStep ps (ReadOk mt p (Some err))]) =
             (fst (readMessages unmarshal now None pre) @ concat (map invoke ps) @
                [Unmarshal p, RouteEvent request, Log ''Error handeling Message: '' (Some err),
                 ReadMessage],
              Blocked)"
  using assms by (simp_all add: readMessages_step deferred_def emit_def)

theorem dispatch_error_keeps_read_pump_witness:
  "frame_event sample_unmarshal (ReadStep [] (ReadOk TextMessage [104, 105] None)) = Some hello
   \<and> sample_unmarshal [98, 121, 101] = Inr bye
   \<and> readMessages sample_unmarshal 0 None
        [ReadStep [] (ReadOk TextMessage [104, 105] None),
         ReadStep [] (ReadOk TextMessage [98, 121, 101] (Some (OtherError ''unknown event'')))] =
       ([SetReadLimit 512, SetReadDeadline 10000000000, SetPongHandler,
         ReadMessage, Unmarshal [104, 105], RouteEvent hello,
         ReadMessage, Unmarshal [98, 121, 101], RouteEvent bye,
         Log ''Error handeling Message: '' (Some (OtherError ''unknown event'')),
         ReadMessage],
        Blocked)"
proof -
  have h1: "\<forall>s\<in>set [ReadStep [] (ReadOk TextMessage [104, 105] None)].
              frame_event sample_unmarshal s \<noteq> None"
    by (simp add: sample_unmarshal_def)
  have h2: "sample_unmarshal [98, 121, 101] = Inr bye"
    by (simp add: sample_unmarshal_def bye_def)
  show ?thesis
    using dispatch_error_keeps_read_pump [OF h1 h2, of 0 "[]" TextMessage
        "OtherError ''unknown event''" "[]"]
    by (simp add: sample_unmarshal_def hello_def bye_def readMessages_def deferred_def
          Add_def sint_pongWait)
qed

text \<open>
  C10. When the first SetReadDeadline fails, readMessages makes four calls and returns:
  the read limit, the deadline, the log line and removeClient. The pong handler is not
  installed, nothing is read and nothing is dispatched. On every run of readMessages
  that returns, whatever the deadline result, removeClient is the last call and it is
  made exactly once.
\<close>

theorem deadline_failure_returns_early:
  "readMessages unmarshal now (Some err) script =
     ([SetReadLimit 512, SetReadDeadline (Add now pongWait), Log [] (Some err), RemoveClient],
      Returned)
   \<and> (snd (readMessages unmarshal' now' dl script') = Returned \<longrightarrow>
        last (fst (readMessages unmarshal' now' dl script')) = RemoveClient
        \<and> count_list (fst (readMessages unmarshal' now' dl script')) RemoveClient = 1)"
proof -
  have "count_list (fst (readLoop unmarshal' script')) RemoveClient = 0"
    by (simp add: readLoop_no_remove)
  then show ?thesis
    by (cases dl) (simp_all add: readMessages_def deferred_def emit_def)
qed

theorem deadline_failure_returns_early_witness:
  "snd (readMessages sample_unmarshal 0 None
          [ReadStep [] (ReadErr (CloseError 1001 ''going away''))]) = Returned
   \<and> fst (readMessages sample_unmarshal 0 None
          [ReadStep [] (ReadErr (CloseError 1001 ''going away''))]) =
       [SetReadLimit 512, SetReadDeadline 10000000000, SetPongHandler, ReadMessage, RemoveClient]
   \<and> readMessages sample_unmarshal 0 (Some (OtherError ''use of closed network connection''))
          [ReadStep [] (ReadOk TextMessage [104, 105] None)] =
       ([SetReadLimit 512, SetReadDeadline 10000000000,
         Log [] (Some (OtherError ''use of closed network connection'')), RemoveClient],
        Returned)"
  using deadline_failure_returns_early [of sample_unmarshal 0
      "OtherError ''use of closed network connection''"
      "[ReadStep [] (ReadOk TextMessage [104, 105] None)]"
      sample_unmarshal 0 None "[ReadStep [] (ReadErr (CloseError 1001 ''going away''))]"]
  by (simp add: readMessages_def deferred_def Add_def sint_pongWait
        CloseGoingAway_def CloseAbnormalClosure_def)

section \<open>Properties of the write pump\<close>

text \<open>
  C3. After any rounds that keep the write pump running, when the select finds the
  egress channel closed, the pump writes one close frame with no payload, logs the
  error if that write failed, stops the ticker, calls removeClient and has returned.
  The run is the same whatever the result of the close write and whatever would have
  been selected afterwards; the close frame is the only close frame of the run and its
  last write.
\<close>

theorem closed_channel_ends_write_pump:
  assumes "\<forall>s\<in>set pre. continues marshal s"
  shows "writeMessages marshal (pre @ ChannelClosed res # rest) =
           (fst (writeMessages marshal pre) @
              WriteMessage CloseMessage [] # logIfErr ''connection closed: '' res @
              [TickerStop, RemoveClient],
            Returned)
         \<and> count_list (map fst (written (fst (writeMessages marshal
                 (pre @ ChannelClosed res # rest))))) CloseMessage = 1
         \<and> last (written (fst (writeMessages marshal (pre @ ChannelClosed res # rest))))
             = (CloseMessage, [])"
proof -
  let ?r = "writeMessages marshal (pre @ ChannelClosed res # rest)"
  have run: "?r = (fst (writeMessages marshal pre) @
              WriteMessage CloseMessage [] # logIfErr ''connection closed: '' res @
              [TickerStop, RemoveClient], Returned)"
    using assms by (simp add: writeMessages_step deferred_def emit_def)
  have "CloseMessage \<notin> set (map frame_kind pre)"
  proof
    assume "CloseMessage \<in> set (map frame_kind pre)"
    then obtain s where "s \<in> set pre" "frame_kind s = CloseMessage" by auto
    with assms show False by (cases s) auto
  qed
  then have "count_list (map frame_kind pre) CloseMessage = 0"
    by (simp only: count_list_0_iff not_False_eq_True)
  then have c: "count_list (map fst (written (fst ?r))) CloseMessage = 1"
    using assms by (simp add: run writeMessages_running writeLoop_kinds)
  have l: "last (written (fst ?r)) = (CloseMessage, [])"
    by (simp add: run)
  from run c l show ?thesis by simp
qed

theorem closed_channel_ends_write_pump_witness:
  "continues sample_marshal (Message hello None)
   \<and> continues sample_marshal (Tick None)
   \<and> writeMessages sample_marshal
        [Message hello None, Tick None, ChannelClosed (Some (OtherError ''broken pipe'')),
         Message bye None] =
       ([NewTicker pingInterval,
         Marshal hello, WriteMessage TextMessage [104, 105], Log ''sent message'' None,
         Log ''ping'' None, WriteMessage PingMessage [],
         WriteMessage CloseMessage [],
         Log ''connection closed: '' (Some (OtherError ''broken pipe'')),
         TickerStop, RemoveClient],
        Returned)"
proof -
  have h: "\<forall>s\<in>set [Message hello None, Tick None]. continues sample_marshal s"
    by (simp add: sample_marshal_def hello_def)
  show ?thesis
    using closed_channel_ends_write_pump [OF h, of "Some (OtherError ''broken pipe'')"
        "[Message bye None]"]
    by (simp add: sample_marshal_def hello_def writeMessages_def deferred_def)
qed

text \<open>
  C4. On a script whose rounds all keep the pump running (K messages that encode, with
  ticks whose pings are written in between), the text frames written are exactly the
  encodings of the K messages, in the order received: as many writes as messages, none
  missing, none twice. Every round makes one whole write, a text frame for a message and
  a ping for a tick, in the order of the rounds, so a ping falls between two text
  frames and never inside one. On any script at all, the text frames written are the
  encodings of an initial part of the messages, in order.
\<close>

theorem writes_in_enqueue_order:
  assumes "\<forall>s\<in>set script. continues marshal s"
  shows "map Inr (texts (fst (writeMessages marshal script))) = map marshal (enqueued script)
         \<and> length (texts (fst (writeMessages marshal script))) = length (enqueued script)
         \<and> map fst (written (fst (writeMessages marshal script))) = map frame_kind script
         \<and> prefix (map Inr (texts (fst (writeMessages marshal any))))
                  (map marshal (enqueued any))"
proof -
  have t: "map Inr (texts (fst (writeMessages marshal script))) = map marshal (enqueued script)"
    using assms by (simp add: writeMessages_running writeLoop_texts)
  have "length (map (Inr :: bytes \<Rightarrow> error + bytes) (texts (fst (writeMessages marshal script))))
        = length (map marshal (enqueued script))"
    by (simp only: t)
  then have l: "length (texts (fst (writeMessages marshal script))) = length (enqueued script)"
    by simp
  have k: "map fst (written (fst (writeMessages marshal script))) = map frame_kind script"
    using assms by (simp add: writeMessages_running writeLoop_kinds)
  have "texts (fst (writeMessages marshal any)) = texts (fst (writeLoop marshal any))"
    by (simp add: writeMessages_def fst_deferred texts_def)
  then have p: "prefix (map Inr (texts (fst (writeMessages marshal any))))
                  (map marshal (enqueued any))"
    by (simp add: writeLoop_texts_prefix)
  from t l k p show ?thesis by simp
qed

theorem writes_in_enqueue_order_witness:
  "continues sample_marshal (Message hello None)
   \<and> continues sample_marshal (Tick None)
   \<and> continues sample_marshal (Message bye (Some (OtherError ''i/o timeout'')))
   \<and> texts (fst (writeMessages sample_marshal
        [Message hello None, Tick None, Message bye (Some (OtherError ''i/o timeout''))])) =
       [[104, 105], [98, 121, 101]]
   \<and> written (fst (writeMessages sample_marshal
        [Message hello None, Tick None, Message bye (Some (OtherError ''i/o timeout''))])) =
       [(TextMessage, [104, 105]), (PingMessage, []), (TextMessage, [98, 121, 101])]"
proof -
  have h: "\<forall>s\<in>set [Message hello None, Tick None,
                   Message bye (Some (OtherError ''i/o timeout''))]. continues sample_marshal s"
    by (simp add: sample_marshal_def hello_def bye_def)
  show ?thesis
    using writes_in_enqueue_order [OF h, of "[]"]
    by (simp add: sample_marshal_def hello_def bye_def writeMessages_def deferred_def)
qed

text \<open>
  C6. After any rounds that keep the write pump running, when the ticker fires and the
  ping write fails, the pump logs the error, stops the ticker, calls removeClient and
  has returned, whatever would have been selected afterwards. On every run of
  writeMessages that returns, the last two calls are the ticker stop and removeClient,
  and neither is made before.
\<close>

theorem ping_failure_ends_write_pump:
  assumes "\<forall>s\<in>set pre. continues marshal s"
  shows "writeMessages marshal (pre @ Tick (Some err) # rest) =
           (fst (writeMessages marshal pre) @
              [Log ''ping'' None, WriteMessage PingMessage [], Log ''writemsg: '' (Some err),
               TickerStop, RemoveClient],
            Returned)
         \<and> (snd (writeMessages marshal' script) = Returned \<longrightarrow>
              (\<exists>body. fst (writeMessages marshal' script) = body @ [TickerStop, RemoveClient]
                 \<and> TickerStop \<notin> set body \<and> RemoveClient \<notin> set body))"
proof -
  have a: "writeMessages marshal (pre @ Tick (Some err) # rest) =
           (fst (writeMessages marshal pre) @
              [Log ''ping'' None, WriteMessage PingMessage [], Log ''writemsg: '' (Some err),
               TickerStop, RemoveClient], Returned)"
    using assms by (simp add: writeMessages_step deferred_def emit_def)
  have b: "snd (writeMessages marshal' script) = Returned \<longrightarrow>
              (\<exists>body. fst (writeMessages marshal' script) = body @ [TickerStop, RemoveClient]
                 \<and> TickerStop \<notin> set body \<and> RemoveClient \<notin> set body)"
  proof
    assume "snd (writeMessages marshal' script) = Returned"
    then have "snd (writeLoop marshal' script) = Returned"
      by (simp add: writeMessages_def)
    then have "fst (writeMessages marshal' script) =
        (NewTicker pingInterval # fst (writeLoop marshal' script)) @ [TickerStop, RemoveClient]"
      by (simp add: writeMessages_def fst_deferred)
    moreover have "TickerStop \<notin> set (NewTicker pingInterval # fst (writeLoop marshal' script))"
      "RemoveClient \<notin> set (NewTicker pingInterval # fst (writeLoop marshal' script))"
      by (simp_all add: writeLoop_no_cleanup)
    ultimately show "\<exists>body. fst (writeMessages marshal' script) = body @ [TickerStop, RemoveClient]
                 \<and> TickerStop \<notin> set body \<and> RemoveClient \<notin> set body"
      by blast
  qed
  from a b show ?thesis by simp
qed

theorem ping_failure_ends_write_pump_witness:
  "continues sample_marshal (Message hello None)
   \<and> snd (writeMessages sample_marshal [Message nameless None]) = Returned
   \<and> writeMessages sample_marshal
        [Message hello None, Tick (Some (OtherError ''broken pipe'')), Message bye None] =
       ([NewTicker pingInterval,
         Marshal hello, WriteMessage TextMessage [104, 105], Log ''sent message'' None,
         Log ''ping'' None, WriteMessage PingMessage [],
         Log ''writemsg: '' (Some (OtherError ''broken pipe'')),
         TickerStop, RemoveClient],
        Returned)
   \<and> fst (writeMessages sample_marshal [Message nameless None]) =
       [NewTicker pingInterval, Marshal nameless,
        Log [] (Some (OtherError ''json: error calling MarshalJSON''))]
         @ [TickerStop, RemoveClient]"
proof -
  have h: "\<forall>s\<in>set [Message hello None]. continues sample_marshal s"
    by (simp add: sample_marshal_def hello_def)
  show ?thesis
    using ping_failure_ends_write_pump [OF h, of "OtherError ''broken pipe''"
        "[Message bye None]" sample_marshal "[Message nameless None]"]
    by (simp add: sample_marshal_def hello_def nameless_def writeMessages_def deferred_def)
qed

text \<open>
  C7. After any rounds that keep the write pump running, when the open egress channel
  yields a message: if json.Marshal fails, the pump logs the error and returns without
  writing a frame; if the message encodes and the text-frame write fails, the pump logs
  the error, logs "sent message" and selects again, so that the calls that follow are
  those of the loop on the remaining rounds, and with no round left the pump is blocked
  in the select and has not returned.
\<close>

theorem encode_failure_fatal_write_failure_not:
  assumes "\<forall>s\<in>set pre. continues marshal s"
  shows "(marshal bad = Inl err \<longrightarrow>
            writeMessages marshal (pre @ Message bad res # rest) =
              (fst (writeMessages marshal pre) @
                 [Marshal bad, Log [] (Some err), TickerStop, RemoveClient],
               Returned))
         \<and> (marshal good = Inr data \<longrightarrow>
            writeMessages marshal (pre @ Message good (Some werr) # rest) =
              deferred [TickerStop, RemoveClient]
                (emit (fst (writeMessages marshal pre) @
                         [Marshal good, WriteMessage TextMessage data, Log [] (Some werr),
                          Log ''sent message'' None])
                      (writeLoop marshal rest))
            \<and> writeMessages marshal (pre @ [Message good (Some werr)]) =
              (fst (writeMessages marshal pre) @
                 [Marshal good, WriteMessage TextMessage data, Log [] (Some werr),
                  Log ''sent message'' None],
               Blocked))"
  using assms by (simp add: writeMessages_step deferred_def emit_def)

theorem encode_failure_fatal_write_failure_not_witness:
  "continues sample_marshal (Tick None)
   \<and> sample_marshal nameless = Inl (OtherError ''json: error calling MarshalJSON'')
   \<and> sample_marshal hello = Inr [104, 105]
   \<and> writeMessages sample_marshal [Tick None, Message nameless None, Message bye None] =
       ([NewTicker pingInterval, Log ''ping'' None, WriteMessage PingMessage [],
         Marshal nameless, Log [] (Some (OtherError ''json: error calling MarshalJSON'')),
         TickerStop, RemoveClient],
        Returned)
   \<and> writeMessages sample_marshal
        [Tick None, Message hello (Some (OtherError ''i/o timeout''))] =
       ([NewTicker pingInterval, Log ''ping'' None, WriteMessage PingMessage [],
         Marshal hello, WriteMessage TextMessage [104, 105],
         Log [] (Some (OtherError ''i/o timeout'')), Log ''sent message'' None],
        Blocked)"
proof -
  have h: "\<forall>s\<in>set [Tick None]. continues sample_marshal s"
    by simp
  show ?thesis
    using encode_failure_fatal_write_failure_not [OF h, of nameless
        "OtherError ''json: error calling MarshalJSON''" None "[Message bye None]"
        hello "[104, 105]" "OtherError ''i/o timeout''"]
    by (simp add: sample_marshal_def hello_def nameless_def writeMessages_def deferred_def)
qed

section \<open>The pong handler and the read deadline\<close>

text \<open>
  C5. An invocation of pongHandler logs, calls SetReadDeadline with the current time plus
  pongWait (ten seconds later) and returns the result of that call unchanged. In a run
  of readMessages the SetReadDeadline calls are the first one, made before the first
  read with the starting time plus pongWait, and one for each invocation of the pong
  handler: there are exactly one more of them than handler invocations, and when no
  pong arrives there is the first one only, however many messages are read, decoded
  and dispatched. A run of writeMessages makes no SetReadDeadline call.
\<close>

theorem only_pong_extends_deadline:
  "pongHandler pongMsg t res = ([Log ''pong'' None, SetReadDeadline (Add t pongWait)], res)
   \<and> Add t pongWait = t + 10000000000
   \<and> length (deadlines (fst (readMessages unmarshal now dl script))) =
       1 + length (handled (fst (readMessages unmarshal now dl script)))
   \<and> hd (deadlines (fst (readMessages unmarshal now dl script))) = Add now pongWait
   \<and> ((\<forall>s\<in>set script. pongs s = []) \<longrightarrow>
        deadlines (fst (readMessages unmarshal now dl script)) = [Add now pongWait])
   \<and> deadlines (fst (writeMessages marshal wscript)) = []"
proof -
  have h: "pongHandler pongMsg t res = ([Log ''pong'' None, SetReadDeadline (Add t pongWait)], res)"
    by (simp add: pongHandler_def)
  have a: "Add t pongWait = t + 10000000000"
    by (simp add: Add_def sint_pongWait)
  have n: "length (deadlines (fst (readMessages unmarshal now dl script))) =
       1 + length (handled (fst (readMessages unmarshal now dl script)))"
    by (cases dl) (simp_all add: readMessages_def fst_deferred readLoop_deadlines)
  have f: "hd (deadlines (fst (readMessages unmarshal now dl script))) = Add now pongWait"
    by (cases dl) (simp_all add: readMessages_def fst_deferred)
  have q: "(\<forall>s\<in>set script. pongs s = []) \<longrightarrow>
        deadlines (fst (readMessages unmarshal now dl script)) = [Add now pongWait]"
    by (cases dl) (simp_all add: readMessages_def fst_deferred readLoop_no_pong)
  have w: "deadlines (fst (writeMessages marshal wscript)) = []"
    by (simp add: writeMessages_def fst_deferred writeLoop_no_deadline)
  from h a n f q w show ?thesis by simp
qed

theorem only_pong_extends_deadline_witness:
  "pongs (ReadStep [] (ReadOk TextMessage [104, 105] None)) = []
   \<and> pongs (ReadStep [] (ReadOk TextMessage [98, 121, 101] None)) = []
   \<and> deadlines (fst (readMessages sample_unmarshal 5 None
        [ReadStep [] (ReadOk TextMessage [104, 105] None),
         ReadStep [] (ReadOk TextMessage [98, 121, 101] None)])) = [10000000005]
   \<and> pongHandler [] 7 (Some (OtherError ''use of closed network connection'')) =
       ([Log ''pong'' None, SetReadDeadline 10000000007],
        Some (OtherError ''use of closed network connection''))"
  using only_pong_extends_deadline [of "[]" 7
      "Some (OtherError ''use of closed network connection'')" sample_unmarshal 5 None
      "[ReadStep [] (ReadOk TextMessage [104, 105] None),
        ReadStep [] (ReadOk TextMessage [98, 121, 101] None)]" sample_marshal "[]"]
  by (simp add: sample_unmarshal_def readMessages_def deferred_def Add_def sint_pongWait
        pongHandler_def)


end
